theory Spec2Isabelle
  imports
    Complex_Main
    "HOL-Library.Word"
    "HOL-Library.Signed_Division"
    "HOL-Library.Log_Nat"
begin

section \<open>The Berger-Rigoutsos dendogram node (mesh/BergerRigoutsosNode.h)\<close>

text \<open>
  The development embeds the inline member functions of the class
  \<^verbatim>\<open>BergerRigoutsosNode\<close> and of its nested class \<^verbatim>\<open>CommonParams\<close>.
  A C++ \<^verbatim>\<open>int\<close> is a 32-bit two's complement value. Where the code does
  arithmetic on it that could leave the range, it is a \<^typ>\<open>32 word\<close> read with
  \<^const>\<open>sint\<close>; where the code only compares it or takes a remainder, it is an
  \<^typ>\<open>int\<close>.
\<close>

subsection \<open>Enumerations\<close>

text \<open>
  \<^verbatim>\<open>enum BoxAcceptance\<close> (lines 836-845) with the integer value the header gives
  each enumerator. The member \<^verbatim>\<open>d_box_acceptance\<close> is compared and reduced
  modulo 2 as an integer, so the node stores the integer value.
\<close>

datatype BoxAcceptance =
    undetermined
  | hasnotag_by_owner
  | rejected_by_calculation
  | accepted_by_calculation
  | rejected_by_owner
  | accepted_by_owner
  | rejected_by_recombination
  | accepted_by_recombination
  | rejected_by_dropout_bcast
  | accepted_by_dropout_bcast

fun BoxAcceptance_value :: "BoxAcceptance \<Rightarrow> int" where
  "BoxAcceptance_value undetermined = -2"
| "BoxAcceptance_value hasnotag_by_owner = -1"
| "BoxAcceptance_value rejected_by_calculation = 0"
| "BoxAcceptance_value accepted_by_calculation = 1"
| "BoxAcceptance_value rejected_by_owner = 2"
| "BoxAcceptance_value accepted_by_owner = 3"
| "BoxAcceptance_value rejected_by_recombination = 4"
| "BoxAcceptance_value accepted_by_recombination = 5"
| "BoxAcceptance_value rejected_by_dropout_bcast = 6"
| "BoxAcceptance_value accepted_by_dropout_bcast = 7"

text \<open>\<^verbatim>\<open>enum WaitPhase\<close> (lines 756-765), all ten enumerators in the order declared.\<close>

datatype WaitPhase =
    for_data_only
  | to_be_launched
  | reduce_histogram
  | bcast_acceptability
  | gather_grouping_criteria
  | bcast_child_groups
  | run_children
  | bcast_to_dropouts
  | completed
  | deallocated

subsection \<open>State\<close>

text \<open>
  The members of \<^verbatim>\<open>CommonParams\<close> that the development reads: the box size limits
  and tolerances of the clustering interface (lines 561 and 578-580; an
  \<^verbatim>\<open>hier::IntVector\<close> is the list of its components, a \<^verbatim>\<open>double\<close> tolerance a
  real number) and the counters that \<^verbatim>\<open>getAvgNumberOfCont\<close> reads (lines 649 and
  655).
\<close>

record CommonParams =
  d_max_box_size :: "int list"
  d_min_box :: "int list"
  d_efficiency_tol :: real
  d_combine_tol :: real
  d_num_nodes_completed :: int
  d_num_conts_to_complete :: int

text \<open>
  The members of a dendogram node that the inline functions read or write. The
  communication group \<^verbatim>\<open>tbox::AsyncCommGroup\<close> is a class outside this header: its
  state is the type parameter \<open>'g\<close>.
\<close>

record 'g BergerRigoutsosNode =
  d_group :: "int list"
  d_box_acceptance :: int
  d_wait_phase :: WaitPhase
  d_recv_msg :: "int list"
  d_comm_group :: 'g

subsection \<open>Acceptance predicates (lines 1028-1044)\<close>

text \<open>
  \<^verbatim>\<open>d_box_acceptance % 2\<close> is the C++ remainder, which truncates towards zero:
  \<^const>\<open>signed_modulo\<close>. A non-zero integer converts to \<^verbatim>\<open>true\<close>.
\<close>

definition boxAccepted :: "'g BergerRigoutsosNode \<Rightarrow> bool" where
  "boxAccepted nd =
     (d_box_acceptance nd \<ge> 0 \<and> d_box_acceptance nd smod 2 \<noteq> 0)"

definition boxRejected :: "'g BergerRigoutsosNode \<Rightarrow> bool" where
  "boxRejected nd =
     (d_box_acceptance nd \<ge> 0 \<and> d_box_acceptance nd smod 2 = 0)"

definition boxHasNoTag :: "'g BergerRigoutsosNode \<Rightarrow> bool" where
  "boxHasNoTag nd = (d_box_acceptance nd = -1)"

subsection \<open>Communication tree degree (lines 958-969)\<close>

text \<open>
  The \<^verbatim>\<open>while\<close> loop of \<^verbatim>\<open>computeCommunicationTreeDegree\<close>, on the pair
  (\<^verbatim>\<open>shifted_size\<close>, \<^verbatim>\<open>tree_deg\<close>). \<^verbatim>\<open>>>\<close> on a signed \<^verbatim>\<open>int\<close>
  is the arithmetic shift.
\<close>

function computeCommunicationTreeDegree_loop :: "32 word \<Rightarrow> 32 word \<Rightarrow> 32 word" where
  "computeCommunicationTreeDegree_loop shifted_size tree_deg =
     (if 0 <s shifted_size
      then computeCommunicationTreeDegree_loop (signed_drop_bit 3 shifted_size) (tree_deg + 1)
      else tree_deg)"
  by pat_completeness auto
termination
proof (relation "measure (\<lambda>(shifted_size, tree_deg). nat (sint shifted_size))")
  show "wf (measure (\<lambda>(shifted_size, tree_deg). nat (sint shifted_size)))"
    by simp
next
  fix shifted_size tree_deg :: "32 word"
  assume "0 <s shifted_size"
  then have pos: "0 < sint shifted_size"
    by (simp add: word_sless_alt)
  have "sint (signed_drop_bit 3 shifted_size) = sint shifted_size div 8"
    by (simp add: sint_signed_drop_bit_eq drop_bit_eq_div)
  with pos have "sint (signed_drop_bit 3 shifted_size) < sint shifted_size"
    by simp
  with pos show "((signed_drop_bit 3 shifted_size, tree_deg + 1), (shifted_size, tree_deg))
      \<in> measure (\<lambda>(shifted_size, tree_deg). nat (sint shifted_size))"
    by simp
qed

declare computeCommunicationTreeDegree_loop.simps [simp del]

definition computeCommunicationTreeDegree :: "32 word \<Rightarrow> 32 word" where
  "computeCommunicationTreeDegree group_size =
     computeCommunicationTreeDegree_loop (signed_drop_bit 3 group_size) 2"

subsection \<open>Average number of continuations (lines 346-355)\<close>

text \<open>
  The division of \<^verbatim>\<open>getAvgNumberOfCont\<close> is made explicit as a result that is
  either the error of dividing by zero or a value. Both operands are 32-bit integers,
  which a \<^verbatim>\<open>double\<close> holds exactly; the quotient is modelled as the exact real
  quotient, of which the \<^verbatim>\<open>double\<close> returned is the rounding.
\<close>

datatype arith_error = DivisionByZero

definition double_div :: "int \<Rightarrow> int \<Rightarrow> arith_error + real" where
  "double_div a b = (if b = 0 then Inl DivisionByZero else Inr (real_of_int a / real_of_int b))"

definition getAvgNumberOfCont :: "CommonParams \<Rightarrow> arith_error + real" where
  "getAvgNumberOfCont c =
     (if d_num_nodes_completed c > 0
      then double_div (d_num_conts_to_complete c) (d_num_nodes_completed c)
      else Inr 0)"

subsection \<open>Completion check of the gather (lines 876-888)\<close>

text \<open>
  \<^verbatim>\<open>checkGather\<close> and \<^verbatim>\<open>isDone\<close> are members of \<^verbatim>\<open>tbox::AsyncCommGroup\<close>,
  which is not part of this header: they are parameters, the first a transformer of the
  group's state and the second an observer. The function returns its result and the node
  as it leaves it.
\<close>

definition gatherGroupingCriteria_check ::
  "('g \<Rightarrow> 'g) \<Rightarrow> ('g \<Rightarrow> bool) \<Rightarrow> 'g BergerRigoutsosNode \<Rightarrow> bool \<times> 'g BergerRigoutsosNode" where
  "gatherGroupingCriteria_check checkGather isDone nd =
     (if length (d_group nd) = 1 then (True, nd)
      else
        let nd' = nd\<lparr>d_comm_group := checkGather (d_comm_group nd)\<rparr>
        in (isDone (d_comm_group nd'), nd'))"

subsection \<open>Precondition of \<^verbatim>\<open>formChildGroups\<close> (lines 890-894)\<close>

text \<open>
  The header documents \<^verbatim>\<open>@pre d_recv_msg.size() == 4 * d_group.size()\<close> for
  \<^verbatim>\<open>formChildGroups\<close>.
\<close>

definition formChildGroups_pre :: "'g BergerRigoutsosNode \<Rightarrow> bool" where
  "formChildGroups_pre nd = (length (d_recv_msg nd) = 4 * length (d_group nd))"

subsection \<open>Wait phases\<close>

text \<open>The position of each enumerator in the declaration of \<^verbatim>\<open>WaitPhase\<close>.\<close>

fun WaitPhase_value :: "WaitPhase \<Rightarrow> nat" where
  "WaitPhase_value for_data_only = 0"
| "WaitPhase_value to_be_launched = 1"
| "WaitPhase_value reduce_histogram = 2"
| "WaitPhase_value bcast_acceptability = 3"
| "WaitPhase_value gather_grouping_criteria = 4"
| "WaitPhase_value bcast_child_groups = 5"
| "WaitPhase_value run_children = 6"
| "WaitPhase_value bcast_to_dropouts = 7"
| "WaitPhase_value completed = 8"
| "WaitPhase_value deallocated = 9"

text \<open>
  The eight phases of an executed node, from \<^verbatim>\<open>to_be_launched\<close> to
  \<^verbatim>\<open>completed\<close>; the enumeration has \<^verbatim>\<open>for_data_only\<close> before them and
  \<^verbatim>\<open>deallocated\<close> after them.
\<close>

definition executed_phases :: "WaitPhase list" where
  "executed_phases =
     [to_be_launched, reduce_histogram, bcast_acceptability, gather_grouping_criteria,
      bcast_child_groups, run_children, bcast_to_dropouts, completed]"

section \<open>Parts of the engine whose code is in BergerRigoutsosNode.C\<close>

text \<open>
  The header declares the functions below and the file that defines them is not among the
  sources. Each is modelled from the specification of the engine and from the
  documentation the header gives.
\<close>

subsection \<open>The state machine of a node\<close>

text \<open>
  Modelled from the spec: \<^verbatim>\<open>continueAlgorithm\<close> (declared at lines 808-809) is not
  defined in the header. These are the moves from one wait phase to the next that section
  4.3 of the specification lists: 1 launch; 2 the reduction completes (a root without tags
  completes at once); 3 the acceptability arrives (accepted: completed; rejected: gather;
  or on to the dropout broadcast); 4 the gather completes; 5 the child groups arrive (a
  rank in no child goes to the dropout broadcast); 6 the children complete; 7 the dropout
  broadcast completes.
\<close>

inductive phase_move :: "WaitPhase \<Rightarrow> WaitPhase \<Rightarrow> bool" where
  launch: "phase_move to_be_launched reduce_histogram"
| reduced: "phase_move reduce_histogram bcast_acceptability"
| no_tag_at_root: "phase_move reduce_histogram completed"
| box_accepted: "phase_move bcast_acceptability completed"
| box_rejected: "phase_move bcast_acceptability gather_grouping_criteria"
| to_dropouts: "phase_move bcast_acceptability bcast_to_dropouts"
| gathered: "phase_move gather_grouping_criteria bcast_child_groups"
| in_a_child: "phase_move bcast_child_groups run_children"
| in_no_child: "phase_move bcast_child_groups bcast_to_dropouts"
| children_completed: "phase_move run_children bcast_to_dropouts"
| dropouts_informed: "phase_move bcast_to_dropouts completed"

code_pred phase_move .

text \<open>
  Modelled from the spec: one call of \<^verbatim>\<open>continueAlgorithm\<close>, as the wait phase before
  the call and the wait phase it returns. The call makes moves until an operation it
  waits for is not complete, where it returns the current phase (section 4.3), or until
  the node has completed; the header adds that without communication one call runs to
  completion (lines 791-797). A call on a launched node posts the reduction, so it does
  not return \<^verbatim>\<open>to_be_launched\<close>; the function is not to be called on a completed node.
\<close>

inductive continueAlgorithm :: "WaitPhase \<Rightarrow> WaitPhase \<Rightarrow> bool" where
  still_waiting:
    "p \<in> set executed_phases \<Longrightarrow> p \<noteq> to_be_launched \<Longrightarrow> p \<noteq> completed
      \<Longrightarrow> continueAlgorithm p p"
| runs_to_completion: "phase_move p completed \<Longrightarrow> continueAlgorithm p completed"
| moves_on: "phase_move p q \<Longrightarrow> continueAlgorithm q r \<Longrightarrow> continueAlgorithm p r"

code_pred continueAlgorithm .

text \<open>
  The wait phases of a node at the points outside \<^verbatim>\<open>continueAlgorithm\<close>, from the
  documentation of \<^verbatim>\<open>WaitPhase\<close> (lines 734-755): a node only used to store data is
  in \<^verbatim>\<open>for_data_only\<close>; a node that is to be executed enters \<^verbatim>\<open>to_be_launched\<close>;
  from there the calls of \<^verbatim>\<open>continueAlgorithm\<close> move it.
\<close>

inductive wait_phase_outside :: "WaitPhase \<Rightarrow> bool" where
  stores_data: "wait_phase_outside for_data_only"
| to_be_executed: "wait_phase_outside to_be_launched"
| continued: "wait_phase_outside p \<Longrightarrow> continueAlgorithm p q \<Longrightarrow> wait_phase_outside q"

subsection \<open>The gather of the grouping criteria\<close>

text \<open>
  Modelled from the spec: \<^verbatim>\<open>countOverlapWithLocalPatches\<close> and
  \<^verbatim>\<open>gatherGroupingCriteria_start\<close> (declared at lines 870-874) are not defined in the
  header. By sections 4.3 (step 3) and 6 of the specification each rank of the group
  contributes the four integers \<open>[overlap_L, overlap_R, rank, node_count]\<close>. The
  argument \<open>crit\<close> gives a rank's two overlap counts and its node count.
\<close>

definition grouping_criteria :: "(int \<Rightarrow> int \<times> int \<times> int) \<Rightarrow> int \<Rightarrow> int list" where
  "grouping_criteria crit rank =
     (case crit rank of (overlap_L, overlap_R, node_count) \<Rightarrow>
        [overlap_L, overlap_R, rank, node_count])"

text \<open>
  Modelled from the spec: the gather to the owner (sections 4.2 and 4.3) is an operation
  of \<^verbatim>\<open>tbox::AsyncCommGroup\<close>, not among the sources. The owner receives the
  contributions of the ranks in the order of the group vector in \<^verbatim>\<open>d_recv_msg\<close>.
\<close>

definition gatherGroupingCriteria ::
  "(int \<Rightarrow> int \<times> int \<times> int) \<Rightarrow> 'g BergerRigoutsosNode \<Rightarrow> 'g BergerRigoutsosNode" where
  "gatherGroupingCriteria crit nd =
     nd\<lparr>d_recv_msg := concat (map (grouping_criteria crit) (d_group nd))\<rparr>"

subsection \<open>The position of a child in the dendogram\<close>

text \<open>The largest value of a C++ \<^verbatim>\<open>int\<close>.\<close>

definition INT_MAX :: int where
  "INT_MAX = 2 ^ 31 - 1"

text \<open>
  Modelled from the spec: the constructor of a non-root node (declared at lines 729-732),
  which initialises \<^verbatim>\<open>d_pos\<close>, is not defined in the header. The formulas are those of
  the documentation of \<^verbatim>\<open>d_pos\<close> (lines 1086-1102), which the data model of the
  specification repeats: the left child (\<^verbatim>\<open>child_number\<close> 0) of the node at position
  \<open>p\<close> is at \<open>2 * p\<close> and the right child (\<^verbatim>\<open>child_number\<close> 1) at \<open>2 * p + 1\<close>;
  when the position is too big to be represented by an \<^verbatim>\<open>int\<close>, \<^verbatim>\<open>d_pos\<close> is
  \<open>-1\<close> for a left child and \<open>-2\<close> for a right child. The children of a node whose
  own position was too big are too big as well.
\<close>

definition child_pos :: "int \<Rightarrow> int \<Rightarrow> int" where
  "child_pos parent_pos child_number =
     (if 0 < parent_pos \<and> 2 * parent_pos + child_number \<le> INT_MAX
      then 2 * parent_pos + child_number
      else if child_number = 0 then -1 else -2)"

subsection \<open>Boxes and tagged cells\<close>

text \<open>
  Modelled from the spec: \<^verbatim>\<open>hier::Box\<close> is a class outside the sources. By section 3
  of the specification a box is an axis-aligned integer-index rectangle in \<open>D\<close>
  dimensions with a block identifier. It is modelled by its block and, for each axis, the
  pair of its lowest and highest index.
\<close>

record Box =
  block_id :: int
  bounds :: "(int \<times> int) list"

text \<open>
  Modelled from the spec: \<^verbatim>\<open>Box::numberCells\<close>, the cell count per dimension
  (section 3).
\<close>

definition numberCells :: "Box \<Rightarrow> int list" where
  "numberCells b = map (\<lambda>(l, u). u - l + 1) (bounds b)"

text \<open>
  Modelled from the spec: the volume of a box (\<^verbatim>\<open>box.volume\<close> in section 4.3), the
  product of its cell counts.
\<close>

definition box_size :: "Box \<Rightarrow> int" where
  "box_size b = prod_list (numberCells b)"

text \<open>
  Modelled from the spec: the tag level (section 3) is a set of patches with an integer
  array each; a tag is a cell whose entry is the tag value. The model keeps the tagged
  cells of the whole level, each with its block and its index.
\<close>

type_synonym tag = "int \<times> int list"

text \<open>Modelled from the spec: a tagged cell lies in a box (of its block).\<close>

definition contains :: "Box \<Rightarrow> tag \<Rightarrow> bool" where
  "contains b t =
     (fst t = block_id b \<and> list_all2 (\<lambda>(l, u) x. l \<le> x \<and> x \<le> u) (bounds b) (snd t))"

text \<open>
  Modelled from the spec: containment of boxes, as in the invariant of section 3 that the
  box of a node is contained in the box of its parent.
\<close>

definition inside :: "Box \<Rightarrow> Box \<Rightarrow> bool" where
  "inside a b =
     (block_id a = block_id b
      \<and> list_all2 (\<lambda>(la, ua) (lb, ub). lb \<le> la \<and> ua \<le> ub) (bounds a) (bounds b))"

subsection \<open>Histogram, tag count and minimal bounding box\<close>

text \<open>
  Modelled from the spec: \<^verbatim>\<open>num_tags\<close> of a node (section 3), the number of tags in
  its box after the global reduction, that is over the tags of all processes.
\<close>

definition num_tags_in :: "tag list \<Rightarrow> Box \<Rightarrow> nat" where
  "num_tags_in tags b = length (filter (contains b) tags)"

text \<open>
  Modelled from the spec: the reduced histogram of a node (\<^verbatim>\<open>makeLocalTagHistogram\<close>
  and \<^verbatim>\<open>reduceHistogram_start\<close> are declared at lines 849-853 only). By section 3,
  \<open>histogram[d]\<close> holds for each slice of the box along axis \<open>d\<close> the number of tags
  in the slice, and its length is the cell count of the box along \<open>d\<close>.
\<close>

definition histogram :: "tag list \<Rightarrow> Box \<Rightarrow> nat \<Rightarrow> nat list" where
  "histogram tags b d =
     map (\<lambda>i. length (filter (\<lambda>t. contains b t \<and> snd t ! d = fst (bounds b ! d) + int i) tags))
       [0..<nat (numberCells b ! d)]"

text \<open>Modelled from the spec: the zero margin of a histogram, its leading run of zeros.\<close>

definition zero_margin :: "nat list \<Rightarrow> nat" where
  "zero_margin h = length (takeWhile (\<lambda>n. n = 0) h)"

text \<open>
  Modelled from the spec: \<^verbatim>\<open>computeMinimalBoundingBoxForTags\<close> (declared at lines
  858-859). By section 4.3, step 2, the owner shrinks the box to the minimal bounding box
  of the tags, using the zero margins of the histogram: along each axis the leading zero
  slices are cut off below and the trailing zero slices above.
\<close>

definition computeMinimalBoundingBoxForTags :: "tag list \<Rightarrow> Box \<Rightarrow> Box" where
  "computeMinimalBoundingBoxForTags tags b =
     b\<lparr>bounds :=
         map (\<lambda>d. (fst (bounds b ! d) + int (zero_margin (histogram tags b d)),
                   snd (bounds b ! d) - int (zero_margin (rev (histogram tags b d)))))
           [0..<length (bounds b)]\<rparr>"

subsection \<open>Acceptance of a candidate box\<close>

text \<open>
  Modelled from the spec: the box fits inside \<^verbatim>\<open>max_box_size\<close> in every dimension
  (sections 4.3 and 6).
\<close>

definition fits_max_box_size :: "CommonParams \<Rightarrow> Box \<Rightarrow> bool" where
  "fits_max_box_size P b = list_all2 (\<le>) (numberCells b) (d_max_box_size P)"

text \<open>
  Modelled from the spec: the efficiency of a box with \<open>n\<close> tags, \<open>tags(b) / volume(b)\<close>
  (glossary). The \<^verbatim>\<open>double\<close> quotient is modelled as the exact quotient.
\<close>

definition efficiency :: "nat \<Rightarrow> Box \<Rightarrow> real" where
  "efficiency n b = real n / real_of_int (box_size b)"

text \<open>
  Modelled from the spec: the decision of \<^verbatim>\<open>acceptOrSplitBox\<close> (declared at lines
  861-862) on the candidate box of a node with \<open>n\<close> tags. Section 4.3, step 2: the box
  is accepted iff \<open>num_tags / box.volume \<ge> efficiency_tol\<close> and the box fits inside
  \<^verbatim>\<open>max_box_size\<close>; otherwise it is rejected and needs splitting. The decision is by
  calculation on the owner, so it is one of the two enumerators
  \<^verbatim>\<open>accepted_by_calculation\<close> and \<^verbatim>\<open>rejected_by_calculation\<close> (lines 826-827).
\<close>

definition acceptOrSplitBox :: "CommonParams \<Rightarrow> Box \<Rightarrow> nat \<Rightarrow> BoxAcceptance" where
  "acceptOrSplitBox P b n =
     (if d_efficiency_tol P \<le> efficiency n b \<and> fits_max_box_size P b
      then accepted_by_calculation else rejected_by_calculation)"

subsection \<open>Splitting\<close>

text \<open>
  Modelled from the spec: a cut of a box is an axis and a plane (the owner broadcasts
  \<open>{rejected, cut_axis, cut_plane}\<close>, section 4.3). Every cut of section 4.3 (zero
  swath, inflection, bisection) lies strictly inside the box: the plane is the first
  index of the right child, above the lowest index and not above the highest.
\<close>

definition valid_cut :: "Box \<Rightarrow> nat \<Rightarrow> int \<Rightarrow> bool" where
  "valid_cut b axis plane =
     (axis < length (bounds b) \<and> fst (bounds b ! axis) < plane \<and> plane \<le> snd (bounds b ! axis))"

text \<open>
  Modelled from the spec: the left and right child boxes formed from the cut
  (section 4.3, step 3): the box below the plane and the box from the plane on.
\<close>

definition left_child_box :: "Box \<Rightarrow> nat \<Rightarrow> int \<Rightarrow> Box" where
  "left_child_box b axis plane =
     b\<lparr>bounds := (bounds b)[axis := (fst (bounds b ! axis), plane - 1)]\<rparr>"

definition right_child_box :: "Box \<Rightarrow> nat \<Rightarrow> int \<Rightarrow> Box" where
  "right_child_box b axis plane =
     b\<lparr>bounds := (bounds b)[axis := (plane, snd (bounds b ! axis))]\<rparr>"

text \<open>
  Modelled from the spec: what the owner decides for a node once the histogram is reduced
  (section 4.3, step 2): the box has no tag; or the shrunken box is accepted; or it is
  split into a left and a right child.
\<close>

datatype decision = NoTag | Accept Box | Split Box Box Box

text \<open>
  The selection of the cut (\<^verbatim>\<open>findZeroCutSwath\<close> and \<^verbatim>\<open>cutAtInflection\<close>, declared
  at lines 973-983, and the bisection) is a parameter of the model: from the shrunken box
  and its histograms it gives the axis and the plane, or nothing when it finds no cut.
\<close>

type_synonym cut_selection = "Box \<Rightarrow> nat list list \<Rightarrow> (nat \<times> int) option"

text \<open>
  Modelled from the spec: steps 1 and 2 of section 4.3 for one node, on the tags of all
  processes. A box without tags gives no output. Otherwise the box is shrunk and
  \<^verbatim>\<open>acceptOrSplitBox\<close> decides; a rejected box is split at the selected cut. A rejected
  box for which no cut inside it is selected cannot be split and is accepted as it is
  (section 7).
\<close>

definition node_decision :: "CommonParams \<Rightarrow> cut_selection \<Rightarrow> tag list \<Rightarrow> Box \<Rightarrow> decision" where
  "node_decision P select_cut tags box =
     (if num_tags_in tags box = 0 then NoTag
      else
        let b = computeMinimalBoundingBoxForTags tags box in
        if acceptOrSplitBox P b (num_tags_in tags box) = accepted_by_calculation then Accept b
        else
          (case select_cut b (map (histogram tags b) [0..<length (bounds b)]) of
             None \<Rightarrow> Accept b
           | Some (axis, plane) \<Rightarrow>
               if valid_cut b axis plane
               then Split b (left_child_box b axis plane) (right_child_box b axis plane)
               else Accept b))"

subsection \<open>Recombination\<close>

text \<open>Modelled from the spec: the union-box of two boxes, their bounding box.\<close>

definition bounding_box :: "Box \<Rightarrow> Box \<Rightarrow> Box" where
  "bounding_box a b =
     a\<lparr>bounds := map2 (\<lambda>(la, ua) (lb, ub). (min la lb, max ua ub)) (bounds a) (bounds b)\<rparr>"

text \<open>
  Modelled from the spec: recombination (section 4.3, step 6) of the outputs \<open>L\<close> and
  \<open>R\<close> of the two children. When each child ends with one accepted box, the union-box
  respects \<^verbatim>\<open>max_box_size\<close> and its efficiency is within \<^verbatim>\<open>combine_tol\<close> of the
  efficiency of each child (\<^verbatim>\<open>combine_tol\<close> is the maximum efficiency loss, section 6),
  the union-box replaces the two boxes.
\<close>

definition recombine :: "CommonParams \<Rightarrow> tag list \<Rightarrow> Box list \<Rightarrow> Box list \<Rightarrow> Box list" where
  "recombine P tags L R =
     (case (L, R) of
        ([bl], [br]) \<Rightarrow>
          let u = bounding_box bl br in
          if fits_max_box_size P u
             \<and> efficiency (num_tags_in tags bl) bl - efficiency (num_tags_in tags u) u
                 \<le> d_combine_tol P
             \<and> efficiency (num_tags_in tags br) br - efficiency (num_tags_in tags u) u
                 \<le> d_combine_tol P
          then [u] else L @ R
      | _ \<Rightarrow> L @ R)"

subsection \<open>The dendogram\<close>

text \<open>The sum of the side lengths of a box, which every split decreases.\<close>

definition sides :: "Box \<Rightarrow> nat" where
  "sides b = sum_list (map nat (numberCells b))"

text \<open>
  Modelled from the spec: the accepted boxes that the dendogram below a node produces
  (section 4.3, steps 2 to 7, without the communication): none for a box without tags, the
  shrunken box when it is accepted, and otherwise the recombination of what the two
  children produce.
\<close>

function cluster :: "CommonParams \<Rightarrow> cut_selection \<Rightarrow> tag list \<Rightarrow> Box \<Rightarrow> Box list" where
  "cluster P select_cut tags box =
     (case node_decision P select_cut tags box of
        NoTag \<Rightarrow> []
      | Accept b \<Rightarrow> [b]
      | Split b l r \<Rightarrow>
          recombine P tags (cluster P select_cut tags l) (cluster P select_cut tags r))"
  by pat_completeness auto
termination
proof -
  have shrink: "sides (computeMinimalBoundingBoxForTags tags b) \<le> sides b" for tags b
  proof -
    have alt: "sides c =
        (\<Sum>d\<leftarrow>[0..<length (bounds c)]. nat (snd (bounds c ! d) - fst (bounds c ! d) + 1))" for c
    proof -
      have "map nat (numberCells c) = map (\<lambda>p. nat (snd p - fst p + 1)) (bounds c)"
        by (simp add: numberCells_def case_prod_beta)
      also have "\<dots> =
          map (\<lambda>d. nat (snd (bounds c ! d) - fst (bounds c ! d) + 1)) [0..<length (bounds c)]"
        by (rule nth_equalityI) simp_all
      finally show ?thesis by (simp add: sides_def)
    qed
    have len: "length (bounds (computeMinimalBoundingBoxForTags tags b)) = length (bounds b)"
      by (simp add: computeMinimalBoundingBoxForTags_def)
    show ?thesis
      unfolding alt len
      by (rule sum_list_mono) (simp add: computeMinimalBoundingBoxForTags_def)
  qed
  have children: "sides (left_child_box b axis plane) < sides b
      \<and> sides (right_child_box b axis plane) < sides b"
    if v: "valid_cut b axis plane" for b axis plane
  proof -
    let ?xs = "map nat (numberCells b)"
    from v have ax: "axis < length ?xs"
      and lo: "fst (bounds b ! axis) < plane" and hi: "plane \<le> snd (bounds b ! axis)"
      by (simp_all add: valid_cut_def numberCells_def)
    have cur: "?xs ! axis = nat (snd (bounds b ! axis) - fst (bounds b ! axis) + 1)"
      using ax by (simp add: numberCells_def case_prod_beta)
    have le: "?xs ! axis \<le> sum_list ?xs"
      using ax by (simp add: member_le_sum_list)
    have "map nat (numberCells (left_child_box b axis plane)) =
        ?xs[axis := nat (plane - 1 - fst (bounds b ! axis) + 1)]"
      by (simp add: left_child_box_def numberCells_def map_update)
    then have "sides (left_child_box b axis plane) =
        sum_list ?xs + nat (plane - 1 - fst (bounds b ! axis) + 1) - ?xs ! axis"
      using ax by (simp add: sides_def sum_list_update)
    with le have left: "sides (left_child_box b axis plane) < sides b"
      using lo hi cur by (simp add: sides_def)
    have "map nat (numberCells (right_child_box b axis plane)) =
        ?xs[axis := nat (snd (bounds b ! axis) - plane + 1)]"
      by (simp add: right_child_box_def numberCells_def map_update)
    then have "sides (right_child_box b axis plane) =
        sum_list ?xs + nat (snd (bounds b ! axis) - plane + 1) - ?xs ! axis"
      using ax by (simp add: sides_def sum_list_update)
    with le have "sides (right_child_box b axis plane) < sides b"
      using lo hi cur by (simp add: sides_def)
    with left show ?thesis ..
  qed
  have smaller: "sides l < sides box \<and> sides r < sides box"
    if "node_decision P select_cut tags box = Split b l r" for P select_cut tags box b l r
  proof -
    from that obtain axis plane where
      b: "b = computeMinimalBoundingBoxForTags tags box" and
      v: "valid_cut b axis plane" and
      l: "l = left_child_box b axis plane" and r: "r = right_child_box b axis plane"
      by (auto simp: node_decision_def Let_def split: if_splits option.splits)
    from shrink [of tags box] children [OF v] show ?thesis
      unfolding b l r by simp
  qed
  show ?thesis
    by (relation "measure (\<lambda>(P, select_cut, tags, box). sides box)")
      (simp_all add: smaller)
qed

declare cluster.simps [simp del]

text \<open>
  Modelled from the spec: the output box level of \<^verbatim>\<open>clusterAndComputeRelationships\<close>
  (declared at lines 274-278). By section 4.5 the driver creates one root node for each
  block bounding box and runs all nodes to completion; the new box level holds the
  accepted boxes.
\<close>

definition clusterAndComputeRelationships ::
  "CommonParams \<Rightarrow> cut_selection \<Rightarrow> tag list \<Rightarrow> Box list \<Rightarrow> Box list" where
  "clusterAndComputeRelationships P select_cut tags bound_boxes =
     concat (map (cluster P select_cut tags) bound_boxes)"

section \<open>Properties\<close>

subsection \<open>Acceptance state\<close>

lemma smod_2_eq_0_iff: "(v::int) smod 2 = 0 \<longleftrightarrow> even v"
proof -
  have "v smod 2 = sgn v * (\<bar>v\<bar> mod 2)"
    by (simp add: signed_modulo_int_def)
  moreover have "sgn v * (\<bar>v\<bar> mod 2) = 0 \<longleftrightarrow> v = 0 \<or> \<bar>v\<bar> mod 2 = 0"
    by (simp add: sgn_eq_0_iff)
  moreover have "\<bar>v\<bar> mod 2 = 0 \<longleftrightarrow> even v"
    by presburger
  ultimately show ?thesis by auto
qed

text \<open>
  Claim C3. For every integer value \<open>v\<close> of \<^verbatim>\<open>d_box_acceptance\<close>:
  \<^verbatim>\<open>boxAccepted()\<close> holds iff \<open>v \<ge> 0\<close> and \<open>v\<close> is odd, \<^verbatim>\<open>boxRejected()\<close>
  holds iff \<open>v \<ge> 0\<close> and \<open>v\<close> is even, \<^verbatim>\<open>boxHasNoTag()\<close> holds iff \<open>v = -1\<close>,
  and no two of the three hold of the same node.
\<close>

theorem box_acceptance_parity:
  fixes nd :: "'g BergerRigoutsosNode"
  shows "(boxAccepted nd \<longleftrightarrow> d_box_acceptance nd \<ge> 0 \<and> odd (d_box_acceptance nd))
    \<and> (boxRejected nd \<longleftrightarrow> d_box_acceptance nd \<ge> 0 \<and> even (d_box_acceptance nd))
    \<and> (boxHasNoTag nd \<longleftrightarrow> d_box_acceptance nd = -1)
    \<and> \<not> (boxAccepted nd \<and> boxRejected nd)
    \<and> \<not> (boxAccepted nd \<and> boxHasNoTag nd)
    \<and> \<not> (boxRejected nd \<and> boxHasNoTag nd)"
  by (auto simp: boxAccepted_def boxRejected_def boxHasNoTag_def smod_2_eq_0_iff)

text \<open>
  On the enumerators: the four accepted values are the odd ones, the four rejected values
  the non-negative even ones; \<^verbatim>\<open>undetermined\<close> is even but negative, so it is neither
  accepted nor rejected.
\<close>

lemma box_acceptance_enumerators:
  fixes nd :: "'g BergerRigoutsosNode"
  shows "boxAccepted (nd\<lparr>d_box_acceptance := BoxAcceptance_value e\<rparr>) \<longleftrightarrow>
      e \<in> {accepted_by_calculation, accepted_by_owner, accepted_by_recombination,
           accepted_by_dropout_bcast}"
    and "boxRejected (nd\<lparr>d_box_acceptance := BoxAcceptance_value e\<rparr>) \<longleftrightarrow>
      e \<in> {rejected_by_calculation, rejected_by_owner, rejected_by_recombination,
           rejected_by_dropout_bcast}"
    and "boxHasNoTag (nd\<lparr>d_box_acceptance := BoxAcceptance_value e\<rparr>) \<longleftrightarrow>
      e = hasnotag_by_owner"
  by (cases e; simp add: boxAccepted_def boxRejected_def boxHasNoTag_def signed_modulo_int_def)+

subsection \<open>Communication tree degree\<close>

lemma floorlog8_step: "0 < x \<Longrightarrow> floorlog 8 x = floorlog 8 (x div 8) + 1"
  using compute_floorlog [of 8 x] by simp

lemma floorlog8_le: "x < 2 ^ 31 \<Longrightarrow> floorlog 8 x \<le> 11"
proof -
  assume "x < 2 ^ 31"
  then have "x < (8::nat) ^ 11" by simp
  then show ?thesis by (simp add: floorlog_le_iff)
qed

lemma sint_signed_drop_bit_3: "sint (signed_drop_bit 3 (w :: 32 word)) = sint w div 8"
  by (simp add: sint_signed_drop_bit_eq drop_bit_eq_div)

text \<open>
  The loop adds to \<^verbatim>\<open>tree_deg\<close> the number of octal digits of
  \<^verbatim>\<open>shifted_size\<close> (none when it is not positive).
\<close>

lemma computeCommunicationTreeDegree_loop_closed:
  "computeCommunicationTreeDegree_loop s d = d + word_of_nat (floorlog 8 (nat (sint s)))"
proof (induction s d rule: computeCommunicationTreeDegree_loop.induct)
  case (1 s d)
  show ?case
  proof (cases "0 <s s")
    case True
    then have pos: "0 < sint s" by (simp add: word_sless_alt)
    have "nat (sint (signed_drop_bit 3 s)) = nat (sint s) div 8"
      using pos by (simp add: sint_signed_drop_bit_3 nat_div_distrib)
    moreover have "floorlog 8 (nat (sint s)) = floorlog 8 (nat (sint s) div 8) + 1"
      using pos by (intro floorlog8_step) simp
    ultimately show ?thesis
      using True "1.IH" [OF True]
      by (subst computeCommunicationTreeDegree_loop.simps) simp
  next
    case False
    then have "sint s \<le> 0" by (simp add: word_sless_alt)
    then have "floorlog 8 (nat (sint s)) = 0" by (simp add: floorlog_eq_zero_iff)
    with False show ?thesis
      by (subst computeCommunicationTreeDegree_loop.simps) simp
  qed
qed

lemma sint_two_plus_of_nat: "k \<le> 20 \<Longrightarrow> sint (2 + word_of_nat k :: 32 word) = 2 + int k"
proof -
  assume k: "k \<le> 20"
  have "(2 + word_of_nat k :: 32 word) = word_of_int (2 + int k)" by simp
  then have "sint (2 + word_of_nat k :: 32 word) = signed_take_bit 31 (2 + int k)"
    by (simp only: sint_sbintrunc') simp
  also have "\<dots> = 2 + int k"
    using k by (intro signed_take_bit_int_eq_self) simp_all
  finally show ?thesis .
qed

lemma computeCommunicationTreeDegree_closed:
  "computeCommunicationTreeDegree n = 2 + word_of_nat (floorlog 8 (nat (sint n) div 8))"
proof (cases "0 \<le> sint n")
  case True
  then have "nat (sint (signed_drop_bit 3 n)) = nat (sint n) div 8"
    by (simp add: sint_signed_drop_bit_3 nat_div_distrib)
  then show ?thesis
    by (simp add: computeCommunicationTreeDegree_def computeCommunicationTreeDegree_loop_closed)
next
  case False
  then have "sint (signed_drop_bit 3 n) < 0"
    by (simp add: sint_signed_drop_bit_3)
  with False show ?thesis
    by (simp add: computeCommunicationTreeDegree_def computeCommunicationTreeDegree_loop_closed
        floorlog_eq_zero_iff)
qed

text \<open>
  Claim C4 as stated: the degree starts at 2 and grows by one with every doubling of the
  group size. It fails at the first doubling: a group of 2 has the degree of a group of 1.
\<close>

theorem computeCommunicationTreeDegree_doubling_counterexample:
  "computeCommunicationTreeDegree 1 = 2
   \<and> computeCommunicationTreeDegree (2 * 1) \<noteq> computeCommunicationTreeDegree 1 + 1"
  by code_simp

text \<open>
  Claim C4, amended. For every group size \<open>n \<ge> 1\<close> the degree is 2 while \<open>n < 8\<close>
  and grows by one with every further factor of 8 (three doublings; the code shifts by
  three bits): the degree of \<open>n \<ge> 8\<close> is one more than the degree of \<open>n >> 3\<close>, and
  in closed form the degree is one more than the number of octal digits of \<open>n\<close>, that is
  \<open>2 + \<lfloor>log\<^sub>8 n\<rfloor>\<close>.
\<close>

theorem computeCommunicationTreeDegree_octal:
  fixes group_size :: "32 word"
  assumes "1 \<le> sint group_size"
  shows "sint (computeCommunicationTreeDegree group_size) =
           1 + int (floorlog 8 (nat (sint group_size)))
    \<and> (sint group_size < 8 \<longrightarrow> computeCommunicationTreeDegree group_size = 2)
    \<and> (8 \<le> sint group_size \<longrightarrow>
         computeCommunicationTreeDegree group_size =
           computeCommunicationTreeDegree (signed_drop_bit 3 group_size) + 1)"
proof (intro conjI impI)
  let ?x = "nat (sint group_size)"
  have x: "0 < ?x" "?x < 2 ^ 31"
    using assms sint_lt [of group_size] by simp_all
  have fl: "floorlog 8 ?x = floorlog 8 (?x div 8) + 1"
    using x(1) by (rule floorlog8_step)
  have "floorlog 8 ?x \<le> 11" using x(2) by (rule floorlog8_le)
  with fl have "floorlog 8 (?x div 8) \<le> 20" by simp
  then have "sint (computeCommunicationTreeDegree group_size) = 2 + int (floorlog 8 (?x div 8))"
    by (simp only: computeCommunicationTreeDegree_closed sint_two_plus_of_nat)
  with fl show "sint (computeCommunicationTreeDegree group_size) = 1 + int (floorlog 8 ?x)"
    by simp
next
  assume "sint group_size < 8"
  with assms have "nat (sint group_size) div 8 = 0" by simp
  moreover have "floorlog 8 (0::nat) = 0" by (simp add: floorlog_def)
  ultimately show "computeCommunicationTreeDegree group_size = 2"
    by (simp add: computeCommunicationTreeDegree_closed)
next
  assume ge: "8 \<le> sint group_size"
  let ?x = "nat (sint group_size)"
  have "0 < ?x div 8" using ge by (simp add: div_greater_zero_iff)
  then have "floorlog 8 (?x div 8) = floorlog 8 (?x div 8 div 8) + 1"
    by (rule floorlog8_step)
  moreover have "nat (sint (signed_drop_bit 3 group_size)) = ?x div 8"
    using ge by (simp add: sint_signed_drop_bit_3 nat_div_distrib)
  ultimately show "computeCommunicationTreeDegree group_size =
           computeCommunicationTreeDegree (signed_drop_bit 3 group_size) + 1"
    by (simp add: computeCommunicationTreeDegree_closed)
qed

theorem computeCommunicationTreeDegree_octal_witness:
  "sint (computeCommunicationTreeDegree 5) = 2 \<and> computeCommunicationTreeDegree 5 = 2
   \<and> sint (computeCommunicationTreeDegree 100) = 4
   \<and> computeCommunicationTreeDegree 100 = computeCommunicationTreeDegree 12 + 1"
proof -
  have five: "1 \<le> sint (5 :: 32 word)" "sint (5 :: 32 word) < 8" by simp_all
  have hundred: "1 \<le> sint (100 :: 32 word)" "8 \<le> sint (100 :: 32 word)" by simp_all
  have f5: "floorlog 8 5 = 1" by code_simp
  have f100: "floorlog 8 100 = 3" by code_simp
  have s: "signed_drop_bit 3 (100 :: 32 word) = 12" by code_simp
  note a = computeCommunicationTreeDegree_octal [OF five(1)]
  note b = computeCommunicationTreeDegree_octal [OF hundred(1)]
  have "sint (computeCommunicationTreeDegree 5) = 2"
    using a [THEN conjunct1] by (simp add: f5)
  moreover have "computeCommunicationTreeDegree 5 = 2"
    using a five(2) by simp
  moreover have "sint (computeCommunicationTreeDegree 100) = 4"
    using b [THEN conjunct1] by (simp add: f100)
  moreover have "computeCommunicationTreeDegree 100 = computeCommunicationTreeDegree 12 + 1"
    using b [THEN conjunct2, THEN conjunct2] hundred(2) by (simp only: s)
  ultimately show ?thesis by blast
qed

subsection \<open>Average number of continuations\<close>

text \<open>
  Claim C9. \<^verbatim>\<open>getAvgNumberOfCont\<close> never divides by zero. When the number of completed
  nodes is zero it returns 0, and when the number is positive (it counts nodes, so these
  are all its values) it returns the number of \<^verbatim>\<open>continueAlgorithm\<close> calls divided
  by the number of completed nodes.
\<close>

theorem getAvgNumberOfCont_no_division_by_zero:
  "getAvgNumberOfCont c \<noteq> Inl DivisionByZero
   \<and> (d_num_nodes_completed c = 0 \<longrightarrow> getAvgNumberOfCont c = Inr 0)
   \<and> (0 < d_num_nodes_completed c \<longrightarrow>
        getAvgNumberOfCont c =
          Inr (real_of_int (d_num_conts_to_complete c) / real_of_int (d_num_nodes_completed c)))"
  by (simp add: getAvgNumberOfCont_def double_div_def)

theorem getAvgNumberOfCont_no_division_by_zero_witness:
  "getAvgNumberOfCont \<lparr>d_max_box_size = [], d_min_box = [], d_efficiency_tol = 0, d_combine_tol = 0,
        d_num_nodes_completed = 0, d_num_conts_to_complete = 7\<rparr> = Inr 0
   \<and> getAvgNumberOfCont \<lparr>d_max_box_size = [], d_min_box = [], d_efficiency_tol = 0, d_combine_tol = 0,
        d_num_nodes_completed = 4, d_num_conts_to_complete = 10\<rparr> = Inr (5 / 2)"
  using
    getAvgNumberOfCont_no_division_by_zero
      [of "\<lparr>d_max_box_size = [], d_min_box = [], d_efficiency_tol = 0, d_combine_tol = 0,
        d_num_nodes_completed = 0, d_num_conts_to_complete = 7\<rparr>"]
    getAvgNumberOfCont_no_division_by_zero
      [of "\<lparr>d_max_box_size = [], d_min_box = [], d_efficiency_tol = 0, d_combine_tol = 0,
        d_num_nodes_completed = 4, d_num_conts_to_complete = 10\<rparr>"]
  by simp

subsection \<open>Completion check of the gather\<close>

text \<open>
  Claim C10. When the group of a node holds exactly one rank,
  \<^verbatim>\<open>gatherGroupingCriteria_check\<close> returns \<^verbatim>\<open>true\<close> at once and leaves the node, its
  communication group included, as it was: \<^verbatim>\<open>checkGather\<close> is not called, whatever it
  would do.
\<close>

theorem gatherGroupingCriteria_check_single_rank:
  assumes "length (d_group nd) = 1"
  shows "gatherGroupingCriteria_check checkGather isDone nd = (True, nd)"
  using assms by (simp add: gatherGroupingCriteria_check_def)

theorem gatherGroupingCriteria_check_single_rank_witness:
  "length (d_group \<lparr>d_group = [0], d_box_acceptance = 0,
      d_wait_phase = gather_grouping_criteria, d_recv_msg = [], d_comm_group = (0::nat)\<rparr>) = 1
   \<and> gatherGroupingCriteria_check Suc (\<lambda>g. False)
        \<lparr>d_group = [0], d_box_acceptance = 0,
         d_wait_phase = gather_grouping_criteria, d_recv_msg = [], d_comm_group = (0::nat)\<rparr>
      = (True, \<lparr>d_group = [0], d_box_acceptance = 0,
           d_wait_phase = gather_grouping_criteria, d_recv_msg = [], d_comm_group = 0\<rparr>)"
proof -
  have one: "length (d_group \<lparr>d_group = [0], d_box_acceptance = 0,
      d_wait_phase = gather_grouping_criteria, d_recv_msg = [], d_comm_group = (0::nat)\<rparr>) = 1"
    by simp
  show ?thesis
    using one gatherGroupingCriteria_check_single_rank [OF one, of Suc "\<lambda>g. False"]
    by simp
qed


text \<open>With any other group the check advances the gather and reports whether it is done.\<close>

lemma gatherGroupingCriteria_check_group:
  assumes "length (d_group nd) \<noteq> 1"
  shows "gatherGroupingCriteria_check checkGather isDone nd =
      (isDone (checkGather (d_comm_group nd)), nd\<lparr>d_comm_group := checkGather (d_comm_group nd)\<rparr>)"
  using assms by (simp add: gatherGroupingCriteria_check_def)

subsection \<open>Wait phases\<close>

lemma phase_move_forward:
  "phase_move p q \<Longrightarrow>
     p \<in> set executed_phases \<and> q \<in> set executed_phases \<and> WaitPhase_value p < WaitPhase_value q"
  by (induction rule: phase_move.induct) (simp_all add: executed_phases_def)

lemma continueAlgorithm_forward:
  "continueAlgorithm p q \<Longrightarrow>
     p \<in> set executed_phases \<and> q \<in> set executed_phases \<and> WaitPhase_value p \<le> WaitPhase_value q"
proof (induction rule: continueAlgorithm.induct)
  case (still_waiting p)
  then show ?case by simp
next
  case (runs_to_completion p)
  then show ?case using phase_move_forward [of p completed] by simp
next
  case (moves_on p q r)
  then show ?case using phase_move_forward [of p q] by simp
qed

lemma successive_calls_forward:
  "continueAlgorithm\<^sup>*\<^sup>* p q \<Longrightarrow> p \<in> set executed_phases \<Longrightarrow>
     q \<in> set executed_phases \<and> WaitPhase_value p \<le> WaitPhase_value q"
proof (induction rule: rtranclp_induct)
  case base
  then show ?case by simp
next
  case (step q r)
  then show ?case using continueAlgorithm_forward [of q r] by simp
qed

lemma wait_phase_outside_cases:
  "wait_phase_outside p \<Longrightarrow> p = for_data_only \<or> p \<in> set executed_phases"
proof (induction rule: wait_phase_outside.induct)
  case stores_data
  then show ?case by simp
next
  case to_be_executed
  then show ?case by (simp add: executed_phases_def)
next
  case (continued p q)
  then show ?case using continueAlgorithm_forward [of p q] by simp
qed

text \<open>
  Claim C6 as stated: at every point outside \<^verbatim>\<open>continueAlgorithm\<close> the wait phase of
  every node is one of the eight phases from \<^verbatim>\<open>to_be_launched\<close> to
  \<^verbatim>\<open>completed\<close>. The enumeration has a ninth phase for exactly such points: a node
  only used to store data is in \<^verbatim>\<open>for_data_only\<close>.
\<close>

theorem wait_phase_eight_counterexample:
  "wait_phase_outside for_data_only \<and> for_data_only \<notin> set executed_phases"
  by (simp add: wait_phase_outside.stores_data executed_phases_def)

text \<open>
  Claim C6, amended. Outside \<^verbatim>\<open>continueAlgorithm\<close> the wait phase of a node is
  \<^verbatim>\<open>for_data_only\<close> (a node that only stores data) or one of the eight phases of an
  executed node, and successive calls of \<^verbatim>\<open>continueAlgorithm\<close> on an executed node keep
  it among the eight and never move it backwards in their order.
\<close>

theorem wait_phase_forward:
  "(wait_phase_outside p \<longrightarrow> p = for_data_only \<or> p \<in> set executed_phases)
   \<and> (p \<in> set executed_phases \<and> continueAlgorithm\<^sup>*\<^sup>* p q \<longrightarrow>
        q \<in> set executed_phases \<and> WaitPhase_value p \<le> WaitPhase_value q)"
  using wait_phase_outside_cases [of p] successive_calls_forward [of p q] by blast

theorem wait_phase_forward_witness:
  "wait_phase_outside to_be_launched
   \<and> to_be_launched \<in> set executed_phases
   \<and> continueAlgorithm\<^sup>*\<^sup>* to_be_launched bcast_acceptability
   \<and> bcast_acceptability \<in> set executed_phases
   \<and> WaitPhase_value to_be_launched \<le> WaitPhase_value bcast_acceptability"
proof -
  have a: "wait_phase_outside to_be_launched"
    by (rule wait_phase_outside.to_be_executed)
  have b: "to_be_launched \<in> set executed_phases"
    by (simp add: executed_phases_def)
  have "continueAlgorithm bcast_acceptability bcast_acceptability"
    by (rule continueAlgorithm.still_waiting) (simp_all add: executed_phases_def)
  then have "continueAlgorithm reduce_histogram bcast_acceptability"
    by (rule continueAlgorithm.moves_on [OF phase_move.reduced])
  then have "continueAlgorithm to_be_launched bcast_acceptability"
    by (rule continueAlgorithm.moves_on [OF phase_move.launch])
  then have c: "continueAlgorithm\<^sup>*\<^sup>* to_be_launched bcast_acceptability"
    by (rule r_into_rtranclp)
  show ?thesis
    using a b c wait_phase_forward [of to_be_launched bcast_acceptability] by simp
qed

subsection \<open>The gather of the grouping criteria\<close>

lemma length_grouping_criteria: "length (grouping_criteria crit r) = 4"
  by (simp add: grouping_criteria_def split: prod.splits)

lemma length_concat_criteria:
  "length (concat (map (grouping_criteria crit) g)) = 4 * length g"
  by (induction g) (simp_all add: length_grouping_criteria)

lemma nth_block_concat_criteria:
  "i < length g \<Longrightarrow>
     take 4 (drop (4 * i) (concat (map (grouping_criteria crit) g))) = grouping_criteria crit (g ! i)"
proof (induction g arbitrary: i)
  case Nil
  then show ?case by simp
next
  case (Cons r g)
  show ?case
  proof (cases i)
    case 0
    then show ?thesis by (simp add: length_grouping_criteria)
  next
    case (Suc j)
    with Cons.prems have "j < length g" by simp
    from Cons.IH [OF this] Suc show ?thesis
      by (simp add: length_grouping_criteria)
  qed
qed

text \<open>
  Claim C7. After the gather the owner's receive buffer holds exactly four integers per
  rank of the group, so its size is four times the size of the group, which is the
  precondition of \<^verbatim>\<open>formChildGroups\<close>; the four integers at the place of the \<open>i\<close>-th
  rank are its left overlap, its right overlap, the rank and its node count.
\<close>

theorem gatherGroupingCriteria_four_per_rank:
  "formChildGroups_pre (gatherGroupingCriteria crit nd)
   \<and> (\<forall>i < length (d_group nd).
        take 4 (drop (4 * i) (d_recv_msg (gatherGroupingCriteria crit nd)))
          = grouping_criteria crit (d_group nd ! i))"
  by (simp add: formChildGroups_pre_def gatherGroupingCriteria_def length_concat_criteria
      nth_block_concat_criteria)

theorem gatherGroupingCriteria_four_per_rank_witness:
  "length (d_recv_msg (gatherGroupingCriteria (\<lambda>r. (r + 10, r + 20, 7))
      \<lparr>d_group = [3, 5], d_box_acceptance = 0, d_wait_phase = gather_grouping_criteria,
       d_recv_msg = [], d_comm_group = ()\<rparr>)) = 8
   \<and> take 4 (drop 4 (d_recv_msg (gatherGroupingCriteria (\<lambda>r. (r + 10, r + 20, 7))
      \<lparr>d_group = [3, 5], d_box_acceptance = 0, d_wait_phase = gather_grouping_criteria,
       d_recv_msg = [], d_comm_group = ()\<rparr>))) = [15, 25, 5, 7]"
  using gatherGroupingCriteria_four_per_rank [of "\<lambda>r. (r + 10, r + 20, 7)"
      "\<lparr>d_group = [3, 5], d_box_acceptance = 0, d_wait_phase = gather_grouping_criteria,
       d_recv_msg = [], d_comm_group = ()\<rparr>"]
  by (simp add: formChildGroups_pre_def grouping_criteria_def gatherGroupingCriteria_def)

subsection \<open>The position of a child in the dendogram\<close>

text \<open>
  Claim C8 as stated: a child position that overflows is saturated to plus or minus a
  large value. At the parent position \<open>2\<^sup>3\<^sup>0\<close>, whose children would be at \<open>2\<^sup>3\<^sup>1\<close>
  and \<open>2\<^sup>3\<^sup>1 + 1\<close>, the children get \<open>-1\<close> and \<open>-2\<close>: both negative, different for
  the two children, and smaller in magnitude than the position of the parent.
\<close>

theorem child_pos_sentinel_counterexample:
  "child_pos (2 ^ 30) 0 = -1 \<and> child_pos (2 ^ 30) 1 = -2
   \<and> \<bar>child_pos (2 ^ 30) 0\<bar> < 2 ^ 30 \<and> \<bar>child_pos (2 ^ 30) 1\<bar> < 2 ^ 30"
  by (simp add: child_pos_def INT_MAX_def)

text \<open>
  Claim C8, amended. For a node at position \<open>p > 0\<close> (the root is at 1) the left child
  is at \<open>2 * p\<close> and the right child at \<open>2 * p + 1\<close> as long as these are values of an
  \<^verbatim>\<open>int\<close>; when they are too big, the left child gets \<open>-1\<close> and the right child
  \<open>-2\<close>.
\<close>

theorem child_pos_formula:
  assumes "0 < p"
  shows "(2 * p + 1 \<le> INT_MAX \<longrightarrow> child_pos p 0 = 2 * p \<and> child_pos p 1 = 2 * p + 1)
    \<and> (INT_MAX < 2 * p + 1 \<longrightarrow> child_pos p 0 = -1 \<and> child_pos p 1 = -2)"
proof -
  have odd_max: "2 * p \<noteq> 2147483647" by presburger
  show ?thesis
    using assms odd_max by (auto simp: child_pos_def INT_MAX_def)
qed

theorem child_pos_formula_witness:
  "child_pos 1 0 = 2 \<and> child_pos 1 1 = 3 \<and> child_pos 5 0 = 10 \<and> child_pos 5 1 = 11
   \<and> child_pos 1073741824 0 = -1 \<and> child_pos 1073741824 1 = -2"
  using child_pos_formula [of 1] child_pos_formula [of 5] child_pos_formula [of 1073741824]
  by (simp add: INT_MAX_def)

subsection \<open>Boxes, tags and the minimal bounding box\<close>

lemma length_shrink [simp]:
  "length (bounds (computeMinimalBoundingBoxForTags tags b)) = length (bounds b)"
  by (simp add: computeMinimalBoundingBoxForTags_def)

lemma nth_shrink:
  "d < length (bounds b) \<Longrightarrow>
     bounds (computeMinimalBoundingBoxForTags tags b) ! d =
       (fst (bounds b ! d) + int (zero_margin (histogram tags b d)),
        snd (bounds b ! d) - int (zero_margin (rev (histogram tags b d))))"
  by (simp add: computeMinimalBoundingBoxForTags_def)

lemma contains_nth:
  "contains b t \<longleftrightarrow>
     fst t = block_id b \<and> length (snd t) = length (bounds b)
     \<and> (\<forall>d < length (bounds b). fst (bounds b ! d) \<le> snd t ! d \<and> snd t ! d \<le> snd (bounds b ! d))"
  by (auto simp: contains_def list_all2_conv_all_nth case_prod_beta)

lemma inside_nth:
  "inside a b \<longleftrightarrow>
     block_id a = block_id b \<and> length (bounds a) = length (bounds b)
     \<and> (\<forall>d < length (bounds b). fst (bounds b ! d) \<le> fst (bounds a ! d)
            \<and> snd (bounds a ! d) \<le> snd (bounds b ! d))"
  by (auto simp: inside_def list_all2_conv_all_nth case_prod_beta)

lemma inside_refl: "inside b b"
  by (simp add: inside_nth)

lemma inside_trans: "inside a b \<Longrightarrow> inside b c \<Longrightarrow> inside a c"
  unfolding inside_nth by (auto intro: order_trans)

lemma inside_contains: "inside a b \<Longrightarrow> contains a t \<Longrightarrow> contains b t"
  unfolding inside_nth contains_nth by (auto intro: order_trans)

lemma block_id_shrink [simp]:
  "block_id (computeMinimalBoundingBoxForTags tags b) = block_id b"
  by (simp add: computeMinimalBoundingBoxForTags_def)

lemma inside_shrink: "inside (computeMinimalBoundingBoxForTags tags b) b"
  by (simp add: inside_nth nth_shrink)

lemma zero_margin_le:
  assumes "i < length h" and "h ! i \<noteq> 0"
  shows "zero_margin h \<le> i"
proof (rule ccontr)
  assume "\<not> zero_margin h \<le> i"
  then have lt: "i < length (takeWhile (\<lambda>n. n = 0) h)"
    by (simp add: zero_margin_def)
  then have "takeWhile (\<lambda>n. n = 0) h ! i \<in> set (takeWhile (\<lambda>n. n = 0) h)"
    by (rule nth_mem)
  then have "takeWhile (\<lambda>n. n = 0) h ! i = 0"
    by (auto dest: set_takeWhileD)
  moreover have "takeWhile (\<lambda>n. n = 0) h ! i = h ! i"
    using lt by (rule takeWhile_nth)
  ultimately show False using assms(2) by simp
qed

lemma zero_margin_rev_le:
  assumes "i < length h" and "h ! i \<noteq> 0"
  shows "zero_margin (rev h) \<le> length h - Suc i"
proof -
  let ?j = "length h - Suc i"
  have j: "?j < length (rev h)" using assms(1) by simp
  have "length h - Suc ?j = i" using assms(1) by arith
  then have "rev h ! ?j = h ! i"
    using j by (simp add: rev_nth)
  with assms(2) have "rev h ! ?j \<noteq> 0" by simp
  with j show ?thesis by (rule zero_margin_le)
qed

lemma length_histogram [simp]:
  "length (histogram tags b d) = nat (numberCells b ! d)"
  by (simp add: histogram_def)

lemma numberCells_nth:
  "d < length (bounds b) \<Longrightarrow> numberCells b ! d = snd (bounds b ! d) - fst (bounds b ! d) + 1"
  by (simp add: numberCells_def case_prod_beta)

lemma histogram_nth_pos:
  assumes t: "t \<in> set tags" and c: "contains b t" and d: "d < length (bounds b)"
  shows "nat (snd t ! d - fst (bounds b ! d)) < length (histogram tags b d)"
    and "histogram tags b d ! nat (snd t ! d - fst (bounds b ! d)) \<noteq> 0"
proof -
  let ?l = "fst (bounds b ! d)" and ?u = "snd (bounds b ! d)" and ?x = "snd t ! d"
  let ?i = "nat (?x - ?l)"
  from c d have lx: "?l \<le> ?x" and xu: "?x \<le> ?u"
    by (simp_all add: contains_nth)
  then show i: "?i < length (histogram tags b d)"
    using d by (simp add: numberCells_nth)
  have "t \<in> set (filter (\<lambda>t. contains b t \<and> snd t ! d = ?l + int ?i) tags)"
    using t c lx by simp
  then have "filter (\<lambda>t. contains b t \<and> snd t ! d = ?l + int ?i) tags \<noteq> []"
    by (metis empty_iff list.set(1))
  then have "length (filter (\<lambda>t. contains b t \<and> snd t ! d = ?l + int ?i) tags) \<noteq> 0"
    by simp
  moreover have "histogram tags b d ! ?i =
      length (filter (\<lambda>t. contains b t \<and> snd t ! d = ?l + int ?i) tags)"
    using i by (simp add: histogram_def)
  ultimately show "histogram tags b d ! ?i \<noteq> 0" by simp
qed

lemma contains_shrink:
  assumes t: "t \<in> set tags" and c: "contains b t"
  shows "contains (computeMinimalBoundingBoxForTags tags b) t"
proof -
  have "fst (bounds b ! d) + int (zero_margin (histogram tags b d)) \<le> snd t ! d
      \<and> snd t ! d \<le> snd (bounds b ! d) - int (zero_margin (rev (histogram tags b d)))"
    if d: "d < length (bounds b)" for d
  proof -
    let ?h = "histogram tags b d"
    let ?l = "fst (bounds b ! d)" and ?u = "snd (bounds b ! d)" and ?x = "snd t ! d"
    let ?i = "nat (?x - ?l)"
    from c d have lx: "?l \<le> ?x" and xu: "?x \<le> ?u"
      by (simp_all add: contains_nth)
    note i = histogram_nth_pos [OF t c d]
    have n: "length ?h = nat (?u - ?l + 1)"
      using d by (simp add: numberCells_nth)
    have "zero_margin ?h \<le> ?i"
      using i by (rule zero_margin_le)
    then have low: "?l + int (zero_margin ?h) \<le> ?x"
      using lx by linarith
    have "zero_margin (rev ?h) \<le> length ?h - Suc ?i"
      using i by (rule zero_margin_rev_le)
    then have "int (zero_margin (rev ?h)) \<le> ?u - ?x"
      using n lx xu i(1) by linarith
    then have "?x \<le> ?u - int (zero_margin (rev ?h))" by linarith
    with low show ?thesis by simp
  qed
  with c show ?thesis
    by (simp add: contains_nth nth_shrink)
qed

lemma contains_shrink_iff:
  "t \<in> set tags \<Longrightarrow> contains (computeMinimalBoundingBoxForTags tags b) t \<longleftrightarrow> contains b t"
  using contains_shrink inside_contains [OF inside_shrink] by blast

lemma all_less_split:
  "axis < n \<Longrightarrow> (\<forall>d<n. Q d) \<longleftrightarrow> (\<forall>d<n. d \<noteq> axis \<longrightarrow> Q d) \<and> Q axis"
  by blast

lemma contains_split:
  assumes ax: "axis < length (bounds b)"
  shows "contains b t \<longleftrightarrow>
     fst t = block_id b \<and> length (snd t) = length (bounds b)
     \<and> (\<forall>d < length (bounds b). d \<noteq> axis \<longrightarrow>
           fst (bounds b ! d) \<le> snd t ! d \<and> snd t ! d \<le> snd (bounds b ! d))
     \<and> fst (bounds b ! axis) \<le> snd t ! axis \<and> snd t ! axis \<le> snd (bounds b ! axis)"
  unfolding contains_nth
  by (subst all_less_split [OF ax]) blast

lemma contains_update:
  assumes ax: "axis < length (bounds b)"
  shows "contains (b\<lparr>bounds := (bounds b)[axis := (l', u')]\<rparr>) t \<longleftrightarrow>
     fst t = block_id b \<and> length (snd t) = length (bounds b)
     \<and> (\<forall>d < length (bounds b). d \<noteq> axis \<longrightarrow>
           fst (bounds b ! d) \<le> snd t ! d \<and> snd t ! d \<le> snd (bounds b ! d))
     \<and> l' \<le> snd t ! axis \<and> snd t ! axis \<le> u'"
proof -
  have ax': "axis < length (bounds (b\<lparr>bounds := (bounds b)[axis := (l', u')]\<rparr>))"
    using ax by simp
  show ?thesis
    unfolding contains_split [OF ax'] using ax by simp
qed

lemma children_props:
  assumes v: "valid_cut b axis plane"
  shows "inside (left_child_box b axis plane) b"
    and "inside (right_child_box b axis plane) b"
    and "contains b t \<longleftrightarrow>
          contains (left_child_box b axis plane) t \<or> contains (right_child_box b axis plane) t"
    and "\<not> (contains (left_child_box b axis plane) t \<and> contains (right_child_box b axis plane) t)"
proof -
  from v have ax: "axis < length (bounds b)"
    and lo: "fst (bounds b ! axis) < plane" and hi: "plane \<le> snd (bounds b ! axis)"
    by (simp_all add: valid_cut_def)
  show "inside (left_child_box b axis plane) b"
    using ax lo hi by (auto simp: inside_nth left_child_box_def nth_list_update)
  show "inside (right_child_box b axis plane) b"
    using ax lo hi by (auto simp: inside_nth right_child_box_def nth_list_update)
  let ?rest = "fst t = block_id b \<and> length (snd t) = length (bounds b)
     \<and> (\<forall>d < length (bounds b). d \<noteq> axis \<longrightarrow>
           fst (bounds b ! d) \<le> snd t ! d \<and> snd t ! d \<le> snd (bounds b ! d))"
  let ?x = "snd t ! axis"
  have B: "contains b t \<longleftrightarrow> ?rest \<and> fst (bounds b ! axis) \<le> ?x \<and> ?x \<le> snd (bounds b ! axis)"
    using contains_split [OF ax, of t] by blast
  have L: "contains (left_child_box b axis plane) t \<longleftrightarrow>
      ?rest \<and> fst (bounds b ! axis) \<le> ?x \<and> ?x \<le> plane - 1"
    unfolding left_child_box_def using contains_update [OF ax, of _ _ t] by blast
  have R: "contains (right_child_box b axis plane) t \<longleftrightarrow>
      ?rest \<and> plane \<le> ?x \<and> ?x \<le> snd (bounds b ! axis)"
    unfolding right_child_box_def using contains_update [OF ax, of _ _ t] by blast
  have arith1: "(fst (bounds b ! axis) \<le> ?x \<and> ?x \<le> snd (bounds b ! axis)) \<longleftrightarrow>
      (fst (bounds b ! axis) \<le> ?x \<and> ?x \<le> plane - 1) \<or> (plane \<le> ?x \<and> ?x \<le> snd (bounds b ! axis))"
    using lo hi by linarith
  have arith2: "\<not> (?x \<le> plane - 1 \<and> plane \<le> ?x)"
    by linarith
  show "contains b t \<longleftrightarrow>
          contains (left_child_box b axis plane) t \<or> contains (right_child_box b axis plane) t"
    unfolding B L R using arith1 by blast
  show "\<not> (contains (left_child_box b axis plane) t \<and> contains (right_child_box b axis plane) t)"
    unfolding L R using arith2 by blast
qed

lemma bounding_box_props:
  assumes len: "length (bounds a) = length (bounds b)"
  shows "contains a t \<Longrightarrow> contains (bounding_box a b) t"
    and "block_id b = block_id a \<Longrightarrow> contains b t \<Longrightarrow> contains (bounding_box a b) t"
    and "inside a c \<Longrightarrow> inside b c \<Longrightarrow> inside (bounding_box a b) c"
  using len unfolding contains_nth inside_nth bounding_box_def
  by (auto simp: case_prod_beta)

subsection \<open>The dendogram\<close>

lemma node_decision_Split:
  assumes "node_decision P select_cut tags box = Split b l r"
  shows "b = computeMinimalBoundingBoxForTags tags box
    \<and> (\<exists>axis plane. valid_cut b axis plane
          \<and> l = left_child_box b axis plane \<and> r = right_child_box b axis plane)"
  using assms
  apply (simp add: node_decision_def Let_def split: if_splits option.splits prod.splits)
  apply blast
  done

lemma node_decision_NoTag:
  "node_decision P select_cut tags box = NoTag \<Longrightarrow> num_tags_in tags box = 0"
  by (simp add: node_decision_def Let_def split: if_splits option.splits prod.splits)

lemma node_decision_Accept:
  "node_decision P select_cut tags box = Accept b \<Longrightarrow>
     0 < num_tags_in tags box \<and> b = computeMinimalBoundingBoxForTags tags box"
  by (simp add: node_decision_def Let_def split: if_splits option.splits prod.splits)

lemma recombine_cases:
  "recombine P tags L R = L @ R
   \<or> (\<exists>bl br. L = [bl] \<and> R = [br] \<and> recombine P tags L R = [bounding_box bl br])"
  by (simp add: recombine_def Let_def split: list.splits)

lemma cluster_invariant:
  "(\<forall>b' \<in> set (cluster P select_cut tags box). inside b' box)
   \<and> (\<forall>t \<in> set tags.
        length (filter (\<lambda>b'. contains b' t) (cluster P select_cut tags box))
          = (if contains box t then 1 else 0))"
proof (induction P select_cut tags box rule: cluster.induct)
  case (1 P select_cut tags box)
  show ?case
  proof (cases "node_decision P select_cut tags box")
    case NoTag
    then have "filter (contains box) tags = []"
      using node_decision_NoTag [of P select_cut tags box] by (simp add: num_tags_in_def)
    then have "\<forall>t \<in> set tags. \<not> contains box t"
      by (simp add: filter_empty_conv)
    with NoTag show ?thesis
      by (simp add: cluster.simps [of P select_cut tags box])
  next
    case (Accept b)
    then have b: "b = computeMinimalBoundingBoxForTags tags box"
      using node_decision_Accept by blast
    have "cluster P select_cut tags box = [b]"
      using Accept by (simp add: cluster.simps [of P select_cut tags box])
    then show ?thesis
      unfolding b using inside_shrink [of tags box] contains_shrink_iff [of _ tags box]
      by simp
  next
    case (Split b l r)
    from node_decision_Split [OF Split] obtain axis plane where
      b: "b = computeMinimalBoundingBoxForTags tags box" and
      v: "valid_cut b axis plane" and
      l: "l = left_child_box b axis plane" and r: "r = right_child_box b axis plane"
      by blast
    let ?L = "cluster P select_cut tags l" and ?R = "cluster P select_cut tags r"
    have res: "cluster P select_cut tags box = recombine P tags ?L ?R"
      using Split by (simp add: cluster.simps [of P select_cut tags box])
    have inL: "\<forall>b' \<in> set ?L. inside b' l"
      and cntL: "\<forall>t \<in> set tags. length (filter (\<lambda>b'. contains b' t) ?L) = (if contains l t then 1 else 0)"
      using "1.IH"(1) [OF Split] by blast+
    have inR: "\<forall>b' \<in> set ?R. inside b' r"
      and cntR: "\<forall>t \<in> set tags. length (filter (\<lambda>b'. contains b' t) ?R) = (if contains r t then 1 else 0)"
      using "1.IH"(2) [OF Split] by blast+
    have lb: "inside l box" and rb: "inside r box"
      using children_props(1,2) [OF v] inside_shrink [of tags box] inside_trans
      unfolding l r b by blast+
    have part: "contains box t \<longleftrightarrow> contains l t \<or> contains r t"
      and excl: "\<not> (contains l t \<and> contains r t)" if "t \<in> set tags" for t
      using children_props(3,4) [OF v, of t] contains_shrink_iff [OF that, of box]
      unfolding l r b by blast+
    from recombine_cases [of P tags ?L ?R] show ?thesis
    proof
      assume app: "recombine P tags ?L ?R = ?L @ ?R"
      have "\<forall>b' \<in> set (?L @ ?R). inside b' box"
        using inL inR lb rb inside_trans by auto
      moreover have "length (filter (\<lambda>b'. contains b' t) (?L @ ?R)) = (if contains box t then 1 else 0)"
        if t: "t \<in> set tags" for t
        using cntL cntR part [OF t] excl [OF t] t by auto
      ultimately show ?thesis unfolding res app by blast
    next
      assume "\<exists>bl br. ?L = [bl] \<and> ?R = [br] \<and> recombine P tags ?L ?R = [bounding_box bl br]"
      then obtain bl br where L: "?L = [bl]" and R: "?R = [br]"
        and u: "recombine P tags ?L ?R = [bounding_box bl br]" by blast
      have bl: "inside bl l" and br: "inside br r"
        using inL inR L R by simp_all
      have blb: "inside bl box" and brb: "inside br box"
        using bl br lb rb inside_trans by blast+
      then have len: "length (bounds bl) = length (bounds br)"
        and blk: "block_id br = block_id bl"
        by (simp_all add: inside_nth)
      have ub: "inside (bounding_box bl br) box"
        using bounding_box_props(3) [OF len blb brb] .
      have "contains (bounding_box bl br) t \<longleftrightarrow> contains box t" if t: "t \<in> set tags" for t
      proof
        assume "contains (bounding_box bl br) t"
        with ub show "contains box t" by (rule inside_contains)
      next
        assume "contains box t"
        with part [OF t] have "contains l t \<or> contains r t" by simp
        then show "contains (bounding_box bl br) t"
        proof
          assume "contains l t"
          with cntL t L have "contains bl t" by (auto split: if_splits)
          then show ?thesis by (rule bounding_box_props(1) [OF len])
        next
          assume "contains r t"
          with cntR t R have "contains br t" by (auto split: if_splits)
          then show ?thesis by (rule bounding_box_props(2) [OF len blk])
        qed
      qed
      with ub show ?thesis unfolding res u by simp
    qed
  qed
qed

lemma length_filter_sum:
  "length (filter Q ts) = (\<Sum>t\<leftarrow>ts. if Q t then 1 else 0)"
  by (induction ts) simp_all

lemma double_count:
  "(\<Sum>b\<leftarrow>bs. length (filter (\<lambda>t. C b t) ts)) = (\<Sum>t\<leftarrow>ts. length (filter (\<lambda>b. C b t) bs))"
proof (induction bs)
  case Nil
  then show ?case by simp
next
  case (Cons b bs)
  have "(\<Sum>t\<leftarrow>ts. length (filter (\<lambda>b. C b t) (b # bs)))
      = (\<Sum>t\<leftarrow>ts. (if C b t then 1 else 0) + length (filter (\<lambda>b. C b t) bs))"
    by (rule arg_cong [where f = sum_list]) simp
  also have "\<dots> = (\<Sum>t\<leftarrow>ts. if C b t then 1 else 0) + (\<Sum>t\<leftarrow>ts. length (filter (\<lambda>b. C b t) bs))"
    by (simp add: sum_list_addf)
  finally show ?case
    using Cons.IH by (simp add: length_filter_sum [of "C b" ts])
qed

subsection \<open>Block bounding boxes\<close>

lemma filter_block_le_one:
  "distinct (map block_id bs) \<Longrightarrow> length (filter (\<lambda>b. block_id b = k) bs) \<le> 1"
proof (induction bs)
  case Nil
  then show ?case by simp
next
  case (Cons b bs)
  show ?case
  proof (cases "block_id b = k")
    case True
    with Cons.prems have "k \<notin> block_id ` set bs" by simp
    then have "\<forall>b' \<in> set bs. block_id b' \<noteq> k" by blast
    then have "filter (\<lambda>b. block_id b = k) bs = []"
      by (simp add: filter_empty_conv)
    with True show ?thesis by simp
  next
    case False
    with Cons show ?thesis by simp
  qed
qed

lemma one_bounding_box:
  assumes d: "distinct (map block_id bound_boxes)"
    and ex: "\<exists>b \<in> set bound_boxes. contains b t"
  shows "length (filter (\<lambda>b. contains b t) bound_boxes) = 1"
proof -
  have "filter (\<lambda>b. contains b t) bound_boxes
      = filter (\<lambda>b. contains b t) (filter (\<lambda>b. block_id b = fst t) bound_boxes)"
    by (auto simp: contains_def intro: filter_cong)
  then have "length (filter (\<lambda>b. contains b t) bound_boxes)
      \<le> length (filter (\<lambda>b. block_id b = fst t) bound_boxes)"
    by (metis length_filter_le)
  with filter_block_le_one [OF d, of "fst t"]
  have "length (filter (\<lambda>b. contains b t) bound_boxes) \<le> 1" by simp
  moreover from ex have "filter (\<lambda>b. contains b t) bound_boxes \<noteq> []"
    by (simp add: filter_empty_conv)
  then have "1 \<le> length (filter (\<lambda>b. contains b t) bound_boxes)"
    by (simp add: Suc_le_eq)
  ultimately show ?thesis by (rule le_antisym)
qed

lemma length_filter_concat_map:
  "length (filter p (concat (map g xs))) = (\<Sum>x\<leftarrow>xs. length (filter p (g x)))"
  by (induction xs) simp_all



subsection \<open>Acceptance of a candidate box\<close>

text \<open>
  What the node does with the decision: an accepted box is the output of the node, and a
  rejected box is split into the two children of the cut that is selected inside it.
\<close>

lemma node_decision_accepted:
  assumes "0 < num_tags_in tags box"
    and "acceptOrSplitBox P (computeMinimalBoundingBoxForTags tags box) (num_tags_in tags box)
      = accepted_by_calculation"
  shows "node_decision P select_cut tags box = Accept (computeMinimalBoundingBoxForTags tags box)"
  using assms by (simp add: node_decision_def Let_def)

lemma node_decision_rejected:
  assumes "0 < num_tags_in tags box"
    and "acceptOrSplitBox P (computeMinimalBoundingBoxForTags tags box) (num_tags_in tags box)
      = rejected_by_calculation"
    and "select_cut (computeMinimalBoundingBoxForTags tags box)
        (map (histogram tags (computeMinimalBoundingBoxForTags tags box))
          [0..<length (bounds (computeMinimalBoundingBoxForTags tags box))])
      = Some (axis, plane)"
    and "valid_cut (computeMinimalBoundingBoxForTags tags box) axis plane"
  shows "node_decision P select_cut tags box =
      Split (computeMinimalBoundingBoxForTags tags box)
        (left_child_box (computeMinimalBoundingBoxForTags tags box) axis plane)
        (right_child_box (computeMinimalBoundingBoxForTags tags box) axis plane)"
  using assms by (simp add: node_decision_def Let_def)



subsection \<open>Tag conservation\<close>

text \<open>
  Claim C1. The bounding boxes given to \<^verbatim>\<open>clusterAndComputeRelationships\<close> are one
  global bounding box for each block with a patch of the tag level (lines 261-262): no two
  are of the same block, and every tag of the level lies in one of them. Then, whatever
  the tolerances and the cut selection, the numbers of tags inside the accepted boxes add
  up to the number of tags of the level; and every tag lies in exactly one accepted box.
\<close>

theorem tag_conservation:
  assumes "distinct (map block_id bound_boxes)"
    and "\<forall>t \<in> set tags. \<exists>b \<in> set bound_boxes. contains b t"
  shows "(\<Sum>b\<leftarrow>clusterAndComputeRelationships P select_cut tags bound_boxes. num_tags_in tags b)
      = length tags
    \<and> (\<forall>t \<in> set tags.
         length (filter (\<lambda>b. contains b t)
           (clusterAndComputeRelationships P select_cut tags bound_boxes)) = 1)"
proof -
  let ?new = "clusterAndComputeRelationships P select_cut tags bound_boxes"
  have one: "length (filter (\<lambda>b. contains b t) ?new) = 1" if t: "t \<in> set tags" for t
  proof -
    have "length (filter (\<lambda>b. contains b t) ?new)
        = (\<Sum>root\<leftarrow>bound_boxes. length (filter (\<lambda>b. contains b t) (cluster P select_cut tags root)))"
      by (simp add: clusterAndComputeRelationships_def length_filter_concat_map)
    also have "\<dots> = (\<Sum>root\<leftarrow>bound_boxes. if contains root t then 1 else 0)"
      using cluster_invariant [of P select_cut tags] t by simp
    also have "\<dots> = length (filter (\<lambda>b. contains b t) bound_boxes)"
      by (simp add: length_filter_sum)
    also have "\<dots> = 1"
      using assms t by (intro one_bounding_box) simp_all
    finally show ?thesis .
  qed
  have "(\<Sum>b\<leftarrow>?new. num_tags_in tags b) = (\<Sum>t\<leftarrow>tags. length (filter (\<lambda>b. contains b t) ?new))"
    unfolding num_tags_in_def by (rule double_count)
  also have "\<dots> = (\<Sum>t\<leftarrow>tags. 1)"
    using one by (intro arg_cong [where f = sum_list] map_cong refl) simp_all
  also have "\<dots> = length tags"
    by (simp add: sum_list_triv)
  finally show ?thesis using one by blast
qed

theorem tag_conservation_witness:
  "distinct (map block_id [\<lparr>block_id = 0, bounds = [(0, 15), (0, 15)]\<rparr>])
   \<and> contains \<lparr>block_id = 0, bounds = [(0, 15), (0, 15)]\<rparr> (0, [1, 1])
   \<and> contains \<lparr>block_id = 0, bounds = [(0, 15), (0, 15)]\<rparr> (0, [5, 6])
   \<and> contains \<lparr>block_id = 0, bounds = [(0, 15), (0, 15)]\<rparr> (0, [5, 7])
   \<and> contains \<lparr>block_id = 0, bounds = [(0, 15), (0, 15)]\<rparr> (0, [9, 9])
   \<and> clusterAndComputeRelationships
        \<lparr>d_max_box_size = [100, 100], d_min_box = [1, 1], d_efficiency_tol = 7 / 10,
         d_combine_tol = 1 / 10, d_num_nodes_completed = 0, d_num_conts_to_complete = 0\<rparr>
        (\<lambda>b hs. Some (0, (fst (bounds b ! 0) + snd (bounds b ! 0) + 1) div 2))
        [(0, [1, 1]), (0, [5, 6]), (0, [5, 7]), (0, [9, 9])]
        [\<lparr>block_id = 0, bounds = [(0, 15), (0, 15)]\<rparr>]
      = [\<lparr>block_id = 0, bounds = [(1, 1), (1, 1)]\<rparr>,
         \<lparr>block_id = 0, bounds = [(5, 5), (6, 7)]\<rparr>,
         \<lparr>block_id = 0, bounds = [(9, 9), (9, 9)]\<rparr>]
   \<and> (\<Sum>b\<leftarrow>clusterAndComputeRelationships
        \<lparr>d_max_box_size = [100, 100], d_min_box = [1, 1], d_efficiency_tol = 7 / 10,
         d_combine_tol = 1 / 10, d_num_nodes_completed = 0, d_num_conts_to_complete = 0\<rparr>
        (\<lambda>b hs. Some (0, (fst (bounds b ! 0) + snd (bounds b ! 0) + 1) div 2))
        [(0, [1, 1]), (0, [5, 6]), (0, [5, 7]), (0, [9, 9])]
        [\<lparr>block_id = 0, bounds = [(0, 15), (0, 15)]\<rparr>].
          num_tags_in [(0, [1, 1]), (0, [5, 6]), (0, [5, 7]), (0, [9, 9])] b) = 4"
proof -
  let ?root = "\<lparr>block_id = 0, bounds = [(0, 15), (0, 15)]\<rparr>"
  let ?tags = "[(0, [1, 1]), (0, [5, 6]), (0, [5, 7]), (0, [9, 9])] :: tag list"
  have d: "distinct (map block_id [?root])" by simp
  have c: "contains ?root (0, [1, 1])" "contains ?root (0, [5, 6])"
    "contains ?root (0, [5, 7])" "contains ?root (0, [9, 9])"
    by (simp_all add: contains_def)
  then have all: "\<forall>t \<in> set ?tags. \<exists>b \<in> set [?root]. contains b t" by simp
  have run: "clusterAndComputeRelationships
        \<lparr>d_max_box_size = [100, 100], d_min_box = [1, 1], d_efficiency_tol = 7 / 10,
         d_combine_tol = 1 / 10, d_num_nodes_completed = 0, d_num_conts_to_complete = 0\<rparr>
        (\<lambda>b hs. Some (0, (fst (bounds b ! 0) + snd (bounds b ! 0) + 1) div 2))
        ?tags [?root]
      = [\<lparr>block_id = 0, bounds = [(1, 1), (1, 1)]\<rparr>,
         \<lparr>block_id = 0, bounds = [(5, 5), (6, 7)]\<rparr>,
         \<lparr>block_id = 0, bounds = [(9, 9), (9, 9)]\<rparr>]"
    by code_simp
  note conserved = tag_conservation [OF d all,
      of "\<lparr>d_max_box_size = [100, 100], d_min_box = [1, 1], d_efficiency_tol = 7 / 10,
         d_combine_tol = 1 / 10, d_num_nodes_completed = 0, d_num_conts_to_complete = 0\<rparr>"
      "\<lambda>b hs. Some (0, (fst (bounds b ! 0) + snd (bounds b ! 0) + 1) div 2)",
      THEN conjunct1]
  show ?thesis
    using d c run conserved by (simp only: list.size) simp
qed

end
